theory Spec2Isabelle
  imports Main
begin

section \<open>The record and the store\<close>

text \<open>
  The interface \<open>HashChainItem\<close> of the source: three mandatory attributes and the two
  optional lock attributes. The attribute \<open>id\<close> is named \<open>item_id\<close> here. Timestamps are
  whole seconds (\<open>Math.floor(Date.now() / 1000)\<close>), modelled as integers.
\<close>

record HashChainItem =
  item_id :: string
  currentHash :: string
  lastUpdated :: int
  lockTime :: "int option"
  lockedBy :: "string option"

text \<open>
  An \<open>UpdateCommand\<close> on the key of the record: its condition expression as a predicate on
  the stored item, its update expression as a function on it. Both commands of the source
  ask for \<open>ReturnValues: ALL_NEW\<close> and \<open>ReturnValuesOnConditionCheckFailure: ALL_OLD\<close>.
\<close>

record UpdateCommand =
  ConditionExpression :: "HashChainItem \<Rightarrow> bool"
  UpdateExpression :: "HashChainItem \<Rightarrow> HashChainItem"

datatype send_error =
    ConditionalCheckFailedException "HashChainItem option"
  | OtherException

text \<open>
  \<open>docClient.send(command)\<close> on the stored item: the result of the call and the item the
  table holds afterwards. The table evaluates the condition and applies the update in one
  step. \<open>fault\<close> stands for any other rejection of the request (transport, throttling);
  such a request leaves the item as it was. The record was written by the setup script,
  so the failed condition check always carries the old item.
\<close>

definition send :: "UpdateCommand \<Rightarrow> bool \<Rightarrow> HashChainItem \<Rightarrow>
    (send_error + HashChainItem) \<times> HashChainItem" where
  "send command fault item =
     (if fault then (Inl OtherException, item)
      else if ConditionExpression command item
        then (Inr (UpdateExpression command item), UpdateExpression command item)
        else (Inl (ConditionalCheckFailedException (Some item)), item))"

section \<open>Errors and the sequence log\<close>

datatype lock_info = LockedByUntil string int | LockInformationNotFound

datatype message =
    FailedToAcquireLock string lock_info
  | FailedToUpdateItem string lock_info

datatype error =
    LockError message "HashChainItem option"
  | RangeError
  | OtherError

fun is_LockError :: "error \<Rightarrow> bool" where
  "is_LockError (LockError m cs) = True"
| "is_LockError RangeError = False"
| "is_LockError OtherError = False"


text \<open>
  The \<open>lockInfo\<close> part of the error message. An empty \<open>lockedBy\<close> is falsy in the source.
  With a holder the source formats \<open>new Date(lockTime * 1000).toISOString()\<close>, which
  raises a \<open>RangeError\<close> when \<open>lockTime\<close> is absent (the time value is \<open>NaN\<close>) and when the
  time value lies outside the range of a \<open>Date\<close>, 8640000000000000 milliseconds on either
  side of the epoch. The ISO rendering of an expiry in range is kept as the number itself.
\<close>

definition lockInfo :: "HashChainItem option \<Rightarrow> error + lock_info" where
  "lockInfo cs =
     (case cs of
        None \<Rightarrow> Inr LockInformationNotFound
      | Some s \<Rightarrow>
          (case lockedBy s of
             None \<Rightarrow> Inr LockInformationNotFound
           | Some h \<Rightarrow>
               if h = [] then Inr LockInformationNotFound
               else (case lockTime s of
                       None \<Rightarrow> Inl RangeError
                     | Some t \<Rightarrow>
                         if \<bar>t * 1000\<bar> \<le> 8640000000000000
                         then Inr (LockedByUntil h t)
                         else Inl RangeError)))"

text \<open>
  The actions handed to \<open>sequenceLogger.log\<close>. The logger's own \<open>time\<close> column is left out;
  the elapsed milliseconds the source interpolates into an action are kept.
\<close>

datatype action =
    Started
  | AcquiringLock
  | LockRequestTook int
  | LockFailureResponseTook int
  | LockAcquired
  | GeneratingHashes
  | GeneratedHash int int int
  | ChainExtended
  | LockFailed
  | RetryingIn int
  | MaxRetriesReached

record SequenceEvent =
  processId :: string
  action :: action
  quantity :: "int option"
  success :: "bool option"

definition log :: "string \<Rightarrow> action \<Rightarrow> int option \<Rightarrow> bool option \<Rightarrow> SequenceEvent" where
  "log pid a q s = \<lparr>processId = pid, action = a, quantity = q, success = s\<rparr>"

section \<open>Acquire and release\<close>

text \<open>\<open>attribute_not_exists(lockTime) OR lockTime < :now\<close>\<close>

definition acquire_condition :: "int \<Rightarrow> HashChainItem \<Rightarrow> bool" where
  "acquire_condition now item =
     (case lockTime item of None \<Rightarrow> True | Some t \<Rightarrow> t < now)"

text \<open>\<open>SET lockTime = :lockTime, lockedBy = :processId\<close>\<close>

definition acquire_update :: "int \<Rightarrow> string \<Rightarrow> HashChainItem \<Rightarrow> HashChainItem" where
  "acquire_update lockExpiration pid item =
     item\<lparr>lockTime := Some lockExpiration, lockedBy := Some pid\<rparr>"

text \<open>
  \<open>acquireLockAndRead(itemId, processId, lockDuration)\<close>. The environment gives the clock
  reading \<open>now\<close>, the elapsed milliseconds \<open>took\<close> for the log line and the \<open>fault\<close> flag
  of the request. The result is the returned item or the raised error, the stored item
  afterwards, and the lines logged.
\<close>

definition acquireLockAndRead :: "string \<Rightarrow> string \<Rightarrow> int \<Rightarrow> int \<Rightarrow> int \<Rightarrow> bool \<Rightarrow>
    HashChainItem \<Rightarrow> (error + HashChainItem) \<times> HashChainItem \<times> SequenceEvent list" where
  "acquireLockAndRead itemId pid lockDuration now took fault item =
     (let lockExpiration = now + lockDuration;
          command = \<lparr>ConditionExpression = acquire_condition now,
                     UpdateExpression = acquire_update lockExpiration pid\<rparr>
      in case send command fault item of
           (Inr attrs, item') \<Rightarrow>
             (Inr attrs, item', [log pid (LockRequestTook took) None None])
         | (Inl (ConditionalCheckFailedException old), item') \<Rightarrow>
             (case lockInfo old of
                Inl e \<Rightarrow> (Inl e, item', [log pid (LockFailureResponseTook took) None None])
              | Inr info \<Rightarrow>
                  (Inl (LockError (FailedToAcquireLock itemId info) old), item',
                   [log pid (LockFailureResponseTook took) None None]))
         | (Inl OtherException, item') \<Rightarrow> (Inl OtherError, item', []))"

text \<open>\<open>lockedBy = :processId AND lockTime > :now\<close>\<close>

definition release_condition :: "string \<Rightarrow> int \<Rightarrow> HashChainItem \<Rightarrow> bool" where
  "release_condition pid now item =
     (lockedBy item = Some pid \<and> (case lockTime item of None \<Rightarrow> False | Some t \<Rightarrow> t > now))"

text \<open>\<open>SET currentHash = :currentHash, lastUpdated = :lastUpdated REMOVE lockTime, lockedBy\<close>\<close>

definition release_update :: "string \<Rightarrow> int \<Rightarrow> HashChainItem \<Rightarrow> HashChainItem" where
  "release_update h stamp item =
     item\<lparr>currentHash := h, lastUpdated := stamp, lockTime := None, lockedBy := None\<rparr>"

text \<open>
  \<open>updateAndReleaseLock(itemId, processId, updateData)\<close>. The source reads the clock twice:
  \<open>now\<close> for the condition and \<open>stamp\<close> for \<open>:lastUpdated\<close>. The result is the returned item
  or the raised error, and the stored item afterwards.
\<close>

definition updateAndReleaseLock :: "string \<Rightarrow> string \<Rightarrow> HashChainItem \<Rightarrow> int \<Rightarrow> int \<Rightarrow> bool \<Rightarrow>
    HashChainItem \<Rightarrow> (error + HashChainItem) \<times> HashChainItem" where
  "updateAndReleaseLock itemId pid updateData now stamp fault item =
     (let command = \<lparr>ConditionExpression = release_condition pid now,
                     UpdateExpression = release_update (currentHash updateData) stamp\<rparr>
      in case send command fault item of
           (Inr attrs, item') \<Rightarrow> (Inr attrs, item')
         | (Inl (ConditionalCheckFailedException old), item') \<Rightarrow>
             (case lockInfo old of
                Inl e \<Rightarrow> (Inl e, item')
              | Inr info \<Rightarrow> (Inl (LockError (FailedToUpdateItem itemId info) old), item'))
         | (Inl OtherException, item') \<Rightarrow> (Inl OtherError, item'))"

section \<open>The work transform\<close>

text \<open>
  \<open>generateNextHash(currentHash, workFactor)\<close>: the \<open>for\<close> loop over \<open>i\<close>, with the digest
  \<open>createHash('sha256').update(hash).digest('hex')\<close> of the crypto library as the
  parameter \<open>sha256hex\<close>.
\<close>

function hash_rounds :: "(string \<Rightarrow> string) \<Rightarrow> int \<Rightarrow> int \<Rightarrow> string \<Rightarrow> string" where
  "hash_rounds sha256hex workFactor i hash =
     (if i < workFactor then hash_rounds sha256hex workFactor (i + 1) (sha256hex hash)
      else hash)"
  by pat_completeness auto
termination
  by (relation "measure (\<lambda>(f, w, i, h). nat (w - i))") auto

declare hash_rounds.simps [simp del]

definition generateNextHash :: "(string \<Rightarrow> string) \<Rightarrow> string \<Rightarrow> int \<Rightarrow> string" where
  "generateNextHash sha256hex current workFactor =
     hash_rounds sha256hex workFactor 0 current"

text \<open>
  The loop of \<open>extendHashChain\<close> that extends the chain \<open>iterations\<close> times, each round
  with the default work factor 50000. \<open>clock i\<close> is the pair of clock readings
  \<open>(startTime, endTime)\<close> of round \<open>i\<close>, which go into the log line only.
\<close>

function generate_hashes :: "(string \<Rightarrow> string) \<Rightarrow> (int \<Rightarrow> int \<times> int) \<Rightarrow> string \<Rightarrow> int \<Rightarrow>
    int \<Rightarrow> string \<Rightarrow> SequenceEvent list \<Rightarrow> string \<times> SequenceEvent list" where
  "generate_hashes sha256hex clock pid iterations i nextHash lg =
     (if i < iterations
      then generate_hashes sha256hex clock pid iterations (i + 1)
             (generateNextHash sha256hex nextHash 50000)
             (lg @ [log pid (GeneratedHash (i + 1) iterations
                               (snd (clock i) - fst (clock i))) None None])
      else (nextHash, lg))"
  by pat_completeness auto
termination
  by (relation "measure (\<lambda>(f, c, p, n, i, h, l). nat (n - i))") auto

declare generate_hashes.simps [simp del]

section \<open>Operations on the stored record\<close>

text \<open>
  The requests of the protocol as the table receives them, one after the other (the table
  serialises the writes to one item): an acquire by a process with its lease duration and
  clock reading, or a release by a process with its update record and two clock readings.
\<close>

datatype store_op =
    OpAcquire string int int
  | OpRelease string HashChainItem int int

fun holder :: "store_op \<Rightarrow> string" where
  "holder (OpAcquire pid lockDuration now) = pid"
| "holder (OpRelease pid updateData now stamp) = pid"

fun op_time :: "store_op \<Rightarrow> int" where
  "op_time (OpAcquire pid lockDuration now) = now"
| "op_time (OpRelease pid updateData now stamp) = now"

fun is_acquire :: "store_op \<Rightarrow> bool" where
  "is_acquire (OpAcquire pid lockDuration now) = True"
| "is_acquire (OpRelease pid updateData now stamp) = False"

fun apply_op :: "string \<Rightarrow> store_op \<Rightarrow> HashChainItem \<Rightarrow>
    (error + HashChainItem) \<times> HashChainItem" where
  "apply_op itemId (OpAcquire pid lockDuration now) item =
     (fst (acquireLockAndRead itemId pid lockDuration now 0 False item),
      fst (snd (acquireLockAndRead itemId pid lockDuration now 0 False item)))"
| "apply_op itemId (OpRelease pid updateData now stamp) item =
     updateAndReleaseLock itemId pid updateData now stamp False item"

fun run_ops :: "string \<Rightarrow> store_op list \<Rightarrow> HashChainItem \<Rightarrow> HashChainItem" where
  "run_ops itemId [] item = item"
| "run_ops itemId (op # ops) item = run_ops itemId ops (snd (apply_op itemId op item))"

text \<open>The item \<open>createInitialItem\<close> of the setup script puts, at clock reading \<open>t\<close>.\<close>

definition createInitialItem :: "int \<Rightarrow> HashChainItem" where
  "createInitialItem t =
     \<lparr>item_id = ''HASH-CHAIN-1'',
      currentHash = ''0000000000000000000000000000000000000000000000000000000000000000'',
      lastUpdated = t, lockTime = None, lockedBy = None\<rparr>"

text \<open>The two lock attributes are both present or both absent.\<close>

definition lock_fields_paired :: "HashChainItem \<Rightarrow> bool" where
  "lock_fields_paired item = ((lockTime item = None) = (lockedBy item = None))"

section \<open>Request sequences\<close>

text \<open>
  The stored item just before request \<open>k\<close> of a sequence, whether request \<open>k\<close> is granted,
  and the expiry an acquire request asks for.
\<close>

definition state_before :: "string \<Rightarrow> store_op list \<Rightarrow> HashChainItem \<Rightarrow> nat \<Rightarrow> HashChainItem" where
  "state_before itemId ops item k = run_ops itemId (take k ops) item"

definition succeeds :: "string \<Rightarrow> store_op list \<Rightarrow> HashChainItem \<Rightarrow> nat \<Rightarrow> bool" where
  "succeeds itemId ops item k =
     (case fst (apply_op itemId (ops ! k) (state_before itemId ops item k)) of
        Inl e \<Rightarrow> False
      | Inr r \<Rightarrow> True)"

fun lease_expiry :: "store_op \<Rightarrow> int" where
  "lease_expiry (OpAcquire pid lockDuration now) = now + lockDuration"
| "lease_expiry (OpRelease pid updateData now stamp) = now"

text \<open>Request \<open>k\<close> is a granted acquire of holder \<open>h\<close>.\<close>

definition acquired :: "string \<Rightarrow> store_op list \<Rightarrow> HashChainItem \<Rightarrow> string \<Rightarrow> nat \<Rightarrow> bool" where
  "acquired itemId ops item h k =
     (k < length ops \<and> is_acquire (ops ! k) \<and> holder (ops ! k) = h \<and>
      succeeds itemId ops item k)"

text \<open>Holder \<open>h\<close> sends no request strictly between requests \<open>i\<close> and \<open>j\<close>.\<close>

definition silent_between :: "store_op list \<Rightarrow> string \<Rightarrow> nat \<Rightarrow> nat \<Rightarrow> bool" where
  "silent_between ops h i j = list_all (\<lambda>op. holder op \<noteq> h) (drop (Suc i) (take j ops))"

text \<open>
  A successful acquire-to-release cycle of holder \<open>h\<close>: its acquire is request \<open>i\<close>, its
  release is request \<open>j\<close>, both are granted, and \<open>h\<close> sends nothing in between (a process
  runs its acquire, its hashing and its release in sequence).
\<close>

definition cycle :: "string \<Rightarrow> store_op list \<Rightarrow> HashChainItem \<Rightarrow> string \<Rightarrow> nat \<Rightarrow> nat \<Rightarrow> bool" where
  "cycle itemId ops item h i j =
     (i < j \<and> j < length ops \<and> acquired itemId ops item h i \<and>
      \<not> is_acquire (ops ! j) \<and> holder (ops ! j) = h \<and> succeeds itemId ops item j \<and>
      silent_between ops h i j)"

text \<open>
  A sequence of six requests: a cycle of \<open>A\<close>, a cycle of \<open>B\<close>, then a lease of \<open>A\<close> that
  \<open>A\<close> never releases and \<open>B\<close> takes over at 1052.
\<close>

definition two_cycles :: "store_op list" where
  "two_cycles =
     [OpAcquire ''A'' 30 1000,
      OpRelease ''A'' ((createInitialItem 0)\<lparr>currentHash := ''ab''\<rparr>) 1010 1010,
      OpAcquire ''B'' 30 1011,
      OpRelease ''B'' ((createInitialItem 0)\<lparr>currentHash := ''cd''\<rparr>) 1020 1020,
      OpAcquire ''A'' 30 1021,
      OpAcquire ''B'' 30 1052]"

section \<open>The executor\<close>

text \<open>
  What one pass of the retry loop meets outside the process: the requests of other
  processes the table serves before this pass's acquire and between its acquire and its
  release, the clock readings of the pass, the elapsed times for the log, the fault flags
  of its two requests, and the draw \<open>Math.floor(Math.random() * 100)\<close> for the backoff.
\<close>

record attempt_env =
  others_before :: "store_op list"
  acquire_now :: int
  acquire_took :: int
  acquire_fault :: bool
  hash_clock :: "int \<Rightarrow> int \<times> int"
  others_during :: "store_op list"
  update_now :: int
  release_now :: int
  release_stamp :: int
  release_fault :: bool
  backoff :: int

text \<open>
  The \<open>try\<close> block of \<open>extendHashChain\<close>: acquire with the default lease of 30 seconds,
  extend the chain from the returned \<open>currentHash\<close>, build \<open>updatedItem\<close>, release.
  An error of either call leaves the block at once.
\<close>

definition attempt_body :: "(string \<Rightarrow> string) \<Rightarrow> attempt_env \<Rightarrow> string \<Rightarrow> string \<Rightarrow> int \<Rightarrow>
    HashChainItem \<Rightarrow> SequenceEvent list \<Rightarrow>
    (error + unit) \<times> HashChainItem \<times> SequenceEvent list" where
  "attempt_body sha256hex e itemId pid iterations store lg =
     (case acquireLockAndRead itemId pid 30 (acquire_now e) (acquire_took e) (acquire_fault e)
             (run_ops itemId (others_before e) store) of
        (Inl err, store1, lgA) \<Rightarrow>
          (Inl err, store1, lg @ [log pid AcquiringLock None None] @ lgA)
      | (Inr item, store1, lgA) \<Rightarrow>
          (case generate_hashes sha256hex (hash_clock e) pid iterations 0 (currentHash item)
                  (lg @ [log pid AcquiringLock None None] @ lgA @
                   [log pid LockAcquired None (Some True),
                    log pid GeneratingHashes None None]) of
             (nextHash, lgH) \<Rightarrow>
               (case updateAndReleaseLock itemId pid
                       (item\<lparr>currentHash := nextHash, lastUpdated := update_now e\<rparr>)
                       (release_now e) (release_stamp e) (release_fault e)
                       (run_ops itemId (others_during e) store1) of
                  (Inl err, store2) \<Rightarrow> (Inl err, store2, lgH)
                | (Inr updated, store2) \<Rightarrow>
                    (Inr (), store2,
                     lgH @ [log pid ChainExtended (Some iterations) (Some True)]))))"

text \<open>
  The \<open>for\<close> loop over \<open>attempt\<close> with its \<open>catch\<close>: a \<open>LockError\<close> is logged and, while
  \<open>attempt < maxRetries\<close>, followed by the backoff sleep and the next pass; at the last
  pass it is thrown again. Any other error is thrown at once. A loop that runs out
  returns normally.
\<close>

function retry_loop :: "(string \<Rightarrow> string) \<Rightarrow> (int \<Rightarrow> attempt_env) \<Rightarrow> string \<Rightarrow> string \<Rightarrow> int \<Rightarrow>
    int \<Rightarrow> int \<Rightarrow> HashChainItem \<Rightarrow> SequenceEvent list \<Rightarrow>
    (error + unit) \<times> HashChainItem \<times> SequenceEvent list" where
  "retry_loop sha256hex env itemId pid iterations maxRetries attempt store lg =
     (if attempt \<le> maxRetries
      then (case attempt_body sha256hex (env attempt) itemId pid iterations store lg of
              (Inr u, store', lg') \<Rightarrow> (Inr u, store', lg')
            | (Inl err, store', lg') \<Rightarrow>
                if is_LockError err
                then (if attempt < maxRetries
                      then retry_loop sha256hex env itemId pid iterations maxRetries
                             (attempt + 1) store'
                             (lg' @ [log pid LockFailed None (Some False),
                                     log pid (RetryingIn (backoff (env attempt))) None None])
                      else (Inl err, store',
                            lg' @ [log pid LockFailed None (Some False),
                                   log pid MaxRetriesReached None (Some False)]))
                else (Inl err, store', lg'))
      else (Inr (), store, lg))"
  by pat_completeness auto
termination
  by (relation "measure (\<lambda>(f, env, i, p, n, m, a, s, l). nat (m + 1 - a))") auto

declare retry_loop.simps [simp del]

text \<open>
  \<open>extendHashChain(itemId, iterations, maxRetries)\<close> run by the process \<open>pid = ulid()\<close>
  against the stored item, in the environment \<open>env\<close> (one \<open>attempt_env\<close> per pass).
\<close>

definition extendHashChain :: "(string \<Rightarrow> string) \<Rightarrow> (int \<Rightarrow> attempt_env) \<Rightarrow> string \<Rightarrow> string \<Rightarrow>
    int \<Rightarrow> int \<Rightarrow> HashChainItem \<Rightarrow> (error + unit) \<times> HashChainItem \<times> SequenceEvent list" where
  "extendHashChain sha256hex env itemId pid iterations maxRetries store =
     retry_loop sha256hex env itemId pid iterations maxRetries 1 store
       [log pid Started (Some iterations) None]"

text \<open>The acquire attempts and the backoff sleeps of a run, read off its log.\<close>

definition acquire_attempts :: "SequenceEvent list \<Rightarrow> nat" where
  "acquire_attempts lg = length (filter (\<lambda>ev. action ev = AcquiringLock) lg)"

fun is_RetryingIn :: "action \<Rightarrow> bool" where
  "is_RetryingIn (RetryingIn b) = True"
| "is_RetryingIn a = False"

definition backoff_sleeps :: "SequenceEvent list \<Rightarrow> nat" where
  "backoff_sleeps lg = length (filter (\<lambda>ev. is_RetryingIn (action ev)) lg)"

text \<open>
  Two environments. In \<open>env_steal\<close> the first pass hashes for forty seconds; process
  \<open>B\<close> takes the expired lease at 1031 and releases at 1041, before the second pass. In
  \<open>env_contended\<close> nothing else happens and pass \<open>k\<close> acquires at \<open>1000 + k\<close>.
\<close>

definition env_steal :: "int \<Rightarrow> attempt_env" where
  "env_steal k =
     (if k = 1
      then \<lparr>others_before = [], acquire_now = 1000, acquire_took = 5, acquire_fault = False,
            hash_clock = (\<lambda>i. (0, 40000)),
            others_during = [OpAcquire ''B'' 30 1031],
            update_now = 1040, release_now = 1040, release_stamp = 1040,
            release_fault = False, backoff = 42\<rparr>
      else \<lparr>others_before =
              [OpRelease ''B'' \<lparr>item_id = ''HASH-CHAIN-1'', currentHash = ''bb'',
                   lastUpdated = 1041, lockTime = Some 1061, lockedBy = Some ''B''\<rparr> 1041 1041],
            acquire_now = 1042, acquire_took = 5, acquire_fault = False,
            hash_clock = (\<lambda>i. (0, 500)),
            others_during = [],
            update_now = 1043, release_now = 1043, release_stamp = 1043,
            release_fault = False, backoff = 17\<rparr>)"

definition env_contended :: "int \<Rightarrow> attempt_env" where
  "env_contended k =
     \<lparr>others_before = [], acquire_now = 1000 + k, acquire_took = 5, acquire_fault = False,
      hash_clock = (\<lambda>i. (0, 500)), others_during = [],
      update_now = 1000 + k, release_now = 1000 + k, release_stamp = 1000 + k,
      release_fault = False, backoff = 42\<rparr>"

text \<open>The record of the setup script, leased to process \<open>A\<close> until 2000.\<close>

definition item_held_by_A :: HashChainItem where
  "item_held_by_A = (createInitialItem 900)\<lparr>lockTime := Some 2000, lockedBy := Some ''A''\<rparr>"

section \<open>Properties of acquire and release\<close>

lemma acquire_store:
  "fst (snd (acquireLockAndRead itemId pid D now took fault item)) =
     (if \<not> fault \<and> acquire_condition now item
      then item\<lparr>lockTime := Some (now + D), lockedBy := Some pid\<rparr> else item)"
  by (simp add: acquireLockAndRead_def send_def acquire_update_def Let_def lockInfo_def
      split: option.splits sum.splits)

lemma release_store:
  "snd (updateAndReleaseLock itemId pid u now stamp fault item) =
     (if \<not> fault \<and> release_condition pid now item
      then item\<lparr>currentHash := currentHash u, lastUpdated := stamp,
                 lockTime := None, lockedBy := None\<rparr> else item)"
  by (simp add: updateAndReleaseLock_def send_def release_update_def Let_def lockInfo_def
      split: option.splits sum.splits)

lemma acquire_granted:
  "acquire_condition now item \<Longrightarrow>
   acquireLockAndRead itemId pid D now took False item =
     (Inr (item\<lparr>lockTime := Some (now + D), lockedBy := Some pid\<rparr>),
      item\<lparr>lockTime := Some (now + D), lockedBy := Some pid\<rparr>,
      [log pid (LockRequestTook took) None None])"
  by (simp add: acquireLockAndRead_def send_def acquire_update_def Let_def)

lemma acquire_rejected:
  "lockTime item = Some e \<Longrightarrow> \<not> e < now \<Longrightarrow>
   acquireLockAndRead itemId pid D now took False item =
     (case lockInfo (Some item) of
        Inl err \<Rightarrow> (Inl err, item, [log pid (LockFailureResponseTook took) None None])
      | Inr info \<Rightarrow>
          (Inl (LockError (FailedToAcquireLock itemId info) (Some item)), item,
           [log pid (LockFailureResponseTook took) None None]))"
  by (simp add: acquireLockAndRead_def send_def acquire_condition_def Let_def
      split: sum.splits)

lemma acquire_characterised:
  "((\<exists>r. fst (acquireLockAndRead itemId h D now took False item) = Inr r) =
      (lockTime item = None \<or> (\<exists>e. lockTime item = Some e \<and> e < now))) \<and>
   acquireLockAndRead itemId h D now took False item =
     (if lockTime item = None \<or> (\<exists>e. lockTime item = Some e \<and> e < now)
      then (Inr (item\<lparr>lockTime := Some (now + D), lockedBy := Some h\<rparr>),
            item\<lparr>lockTime := Some (now + D), lockedBy := Some h\<rparr>,
            [log h (LockRequestTook took) None None])
      else (case lockInfo (Some item) of
              Inl err \<Rightarrow> (Inl err, item, [log h (LockFailureResponseTook took) None None])
            | Inr info \<Rightarrow>
                (Inl (LockError (FailedToAcquireLock itemId info) (Some item)), item,
                 [log h (LockFailureResponseTook took) None None])))"
proof (cases "lockTime item")
  case None
  then have "acquire_condition now item" by (simp add: acquire_condition_def)
  then show ?thesis using None by (simp add: acquire_granted)
next
  case (Some e)
  show ?thesis
  proof (cases "e < now")
    case True
    then have "acquire_condition now item" using Some by (simp add: acquire_condition_def)
    then show ?thesis using Some True by (simp add: acquire_granted)
  next
    case False
    then show ?thesis
      using Some acquire_rejected [of item e now itemId h D took]
      by (simp split: sum.splits)
  qed
qed


text \<open>
  C3, as the claim states it, fails on the stamp: the condition uses the clock reading
  \<open>now\<close>, and \<open>lastUpdated\<close> is set from a second reading of the clock. With \<open>now = 1000\<close>
  and the second reading \<open>1001\<close> the release succeeds and stores \<open>lastUpdated = 1001\<close>.
\<close>

theorem release_lastUpdated_counterexample:
  "updateAndReleaseLock ''HASH-CHAIN-1'' ''A''
      \<lparr>item_id = ''HASH-CHAIN-1'', currentHash = ''ab'', lastUpdated = 1000,
       lockTime = Some 1030, lockedBy = Some ''A''\<rparr>
      1000 1001 False
      \<lparr>item_id = ''HASH-CHAIN-1'', currentHash = ''00'', lastUpdated = 900,
       lockTime = Some 1030, lockedBy = Some ''A''\<rparr>
    = (Inr \<lparr>item_id = ''HASH-CHAIN-1'', currentHash = ''ab'', lastUpdated = 1001,
            lockTime = None, lockedBy = None\<rparr>,
       \<lparr>item_id = ''HASH-CHAIN-1'', currentHash = ''ab'', lastUpdated = 1001,
        lockTime = None, lockedBy = None\<rparr>) \<and>
   lastUpdated (snd (updateAndReleaseLock ''HASH-CHAIN-1'' ''A''
      \<lparr>item_id = ''HASH-CHAIN-1'', currentHash = ''ab'', lastUpdated = 1000,
       lockTime = Some 1030, lockedBy = Some ''A''\<rparr>
      1000 1001 False
      \<lparr>item_id = ''HASH-CHAIN-1'', currentHash = ''00'', lastUpdated = 900,
       lockTime = Some 1030, lockedBy = Some ''A''\<rparr>)) \<noteq> 1000"
  by (simp add: updateAndReleaseLock_def send_def release_condition_def release_update_def)

text \<open>
  C3, amended. Release succeeds exactly when \<open>lockedBy = h\<close> and \<open>lockTime > now\<close>. On
  success the stored item gets the new \<open>currentHash\<close>, \<open>lastUpdated\<close> set to the clock
  reading \<open>stamp\<close> taken when the request is built, and both lock attributes removed, in
  one step. On a failed condition the stored item is unchanged.
\<close>

theorem updateAndReleaseLock_spec:
  "((\<exists>r. fst (updateAndReleaseLock itemId h u now stamp False item) = Inr r) =
      (lockedBy item = Some h \<and> (\<exists>e. lockTime item = Some e \<and> e > now))) \<and>
   updateAndReleaseLock itemId h u now stamp False item =
     (if lockedBy item = Some h \<and> (\<exists>e. lockTime item = Some e \<and> e > now)
      then (Inr (item\<lparr>currentHash := currentHash u, lastUpdated := stamp,
                      lockTime := None, lockedBy := None\<rparr>),
            item\<lparr>currentHash := currentHash u, lastUpdated := stamp,
                 lockTime := None, lockedBy := None\<rparr>)
      else (case lockInfo (Some item) of
              Inl e \<Rightarrow> (Inl e, item)
            | Inr info \<Rightarrow>
                (Inl (LockError (FailedToUpdateItem itemId info) (Some item)), item)))"
  by (auto simp add: updateAndReleaseLock_def send_def release_condition_def release_update_def
      split: option.splits sum.splits)

text \<open>
  C4, as the claim states it, fails at the boundary instant: a record whose \<open>lockTime\<close>
  equals \<open>now\<close> is not acquired, while the same record without lock attributes is.
\<close>

theorem acquire_boundary_counterexample:
  "lockTime \<lparr>item_id = ''HASH-CHAIN-1'', currentHash = ''00'', lastUpdated = 900,
             lockTime = Some 1000, lockedBy = Some ''A''\<rparr> = Some 1000 \<and>
   \<not> (1000::int) > 1000 \<and>
   acquireLockAndRead ''HASH-CHAIN-1'' ''B'' 30 1000 0 False
      \<lparr>item_id = ''HASH-CHAIN-1'', currentHash = ''00'', lastUpdated = 900,
       lockTime = Some 1000, lockedBy = Some ''A''\<rparr>
    = (Inl (LockError (FailedToAcquireLock ''HASH-CHAIN-1'' (LockedByUntil ''A'' 1000))
             (Some \<lparr>item_id = ''HASH-CHAIN-1'', currentHash = ''00'', lastUpdated = 900,
                    lockTime = Some 1000, lockedBy = Some ''A''\<rparr>)),
       \<lparr>item_id = ''HASH-CHAIN-1'', currentHash = ''00'', lastUpdated = 900,
        lockTime = Some 1000, lockedBy = Some ''A''\<rparr>,
       [log ''B'' (LockFailureResponseTook 0) None None]) \<and>
   acquireLockAndRead ''HASH-CHAIN-1'' ''B'' 30 1000 0 False
      \<lparr>item_id = ''HASH-CHAIN-1'', currentHash = ''00'', lastUpdated = 900,
       lockTime = None, lockedBy = None\<rparr>
    = (Inr \<lparr>item_id = ''HASH-CHAIN-1'', currentHash = ''00'', lastUpdated = 900,
            lockTime = Some 1030, lockedBy = Some ''B''\<rparr>,
       \<lparr>item_id = ''HASH-CHAIN-1'', currentHash = ''00'', lastUpdated = 900,
        lockTime = Some 1030, lockedBy = Some ''B''\<rparr>,
       [log ''B'' (LockRequestTook 0) None None])"
  by (simp add: acquireLockAndRead_def send_def acquire_condition_def acquire_update_def
      lockInfo_def)

text \<open>
  C4, amended. On a record whose \<open>lockTime\<close> is present and strictly less than \<open>now\<close>,
  acquire behaves exactly as on the same record without lock attributes: it succeeds and
  overwrites holder and expiry. At the boundary instant \<open>lockTime = now\<close>, and while
  \<open>lockTime > now\<close>, it is rejected and the record is unchanged.
\<close>

theorem acquire_expired_lease:
  assumes "lockTime item = Some e"
  shows "if e < now
         then acquireLockAndRead itemId h D now took False item =
                acquireLockAndRead itemId h D now took False
                  (item\<lparr>lockTime := None, lockedBy := None\<rparr>) \<and>
              acquireLockAndRead itemId h D now took False item =
                (Inr (item\<lparr>lockTime := Some (now + D), lockedBy := Some h\<rparr>),
                 item\<lparr>lockTime := Some (now + D), lockedBy := Some h\<rparr>,
                 [log h (LockRequestTook took) None None])
         else acquireLockAndRead itemId h D now took False item =
                (case lockInfo (Some item) of
                   Inl err \<Rightarrow>
                     (Inl err, item, [log h (LockFailureResponseTook took) None None])
                 | Inr info \<Rightarrow>
                     (Inl (LockError (FailedToAcquireLock itemId info) (Some item)), item,
                      [log h (LockFailureResponseTook took) None None]))"
proof (cases "e < now")
  case True
  have a: "acquire_condition now item"
    using assms True by (simp add: acquire_condition_def)
  have b: "acquire_condition now (item\<lparr>lockTime := None, lockedBy := None\<rparr>)"
    by (simp add: acquire_condition_def)
  show ?thesis
    using True by (simp add: acquire_granted [OF a] acquire_granted [OF b])
next
  case False
  then show ?thesis
    using acquire_rejected [of item e now itemId h D took] assms by simp
qed

theorem acquire_expired_lease_witness:
  "acquireLockAndRead ''HASH-CHAIN-1'' ''B'' 30 1031 0 False
      \<lparr>item_id = ''HASH-CHAIN-1'', currentHash = ''00'', lastUpdated = 900,
       lockTime = Some 1030, lockedBy = Some ''A''\<rparr>
    = (Inr \<lparr>item_id = ''HASH-CHAIN-1'', currentHash = ''00'', lastUpdated = 900,
            lockTime = Some 1061, lockedBy = Some ''B''\<rparr>,
       \<lparr>item_id = ''HASH-CHAIN-1'', currentHash = ''00'', lastUpdated = 900,
        lockTime = Some 1061, lockedBy = Some ''B''\<rparr>,
       [log ''B'' (LockRequestTook 0) None None])"
  using acquire_expired_lease [of
      "\<lparr>item_id = ''HASH-CHAIN-1'', currentHash = ''00'', lastUpdated = 900,
        lockTime = Some 1030, lockedBy = Some ''A''\<rparr>" 1030 1031 "''HASH-CHAIN-1''" "''B''" 30 0]
  by auto

text \<open>
  C7. Acquire and release each keep the two lock attributes paired, in the stored item and
  in the item they return, and so does every sequence of requests; the item the setup
  script creates has neither attribute.
\<close>

theorem lock_fields_paired_preserved:
  assumes "lock_fields_paired item"
  shows "lock_fields_paired (fst (snd (acquireLockAndRead itemId h D now took fault item))) \<and>
         lock_fields_paired (snd (updateAndReleaseLock itemId h u now stamp fault item)) \<and>
         lock_fields_paired (run_ops itemId ops item) \<and>
         lock_fields_paired (createInitialItem t)"
proof -
  have step: "\<And>op it. lock_fields_paired it \<Longrightarrow> lock_fields_paired (snd (apply_op itemId op it))"
  proof -
    fix op it
    assume "lock_fields_paired it"
    then show "lock_fields_paired (snd (apply_op itemId op it))"
      by (cases op) (simp_all add: acquire_store release_store lock_fields_paired_def)
  qed
  have run: "\<And>it. lock_fields_paired it \<Longrightarrow> lock_fields_paired (run_ops itemId ops it)"
  proof (induction ops)
    case Nil
    then show ?case by simp
  next
    case (Cons op ops)
    then show ?case by (simp add: step)
  qed
  show ?thesis
    using assms run [OF assms]
    by (simp add: acquire_store release_store lock_fields_paired_def createInitialItem_def)
qed

theorem lock_fields_paired_preserved_witness:
  "lock_fields_paired (createInitialItem 900) \<and>
   lock_fields_paired
     (run_ops ''HASH-CHAIN-1''
        [OpAcquire ''A'' 30 1000,
         OpAcquire ''B'' 30 1010,
         OpRelease ''A'' (createInitialItem 0\<lparr>currentHash := ''ab''\<rparr>) 1020 1020,
         OpAcquire ''B'' 30 1021]
        (createInitialItem 900))"
proof -
  have h: "lock_fields_paired (createInitialItem 900)"
    by (simp add: lock_fields_paired_def createInitialItem_def)
  show ?thesis
    using h lock_fields_paired_preserved [OF h, where itemId = "''HASH-CHAIN-1''" and ops =
        "[OpAcquire ''A'' 30 1000,
          OpAcquire ''B'' 30 1010,
          OpRelease ''A'' (createInitialItem 0\<lparr>currentHash := ''ab''\<rparr>) 1020 1020,
          OpAcquire ''B'' 30 1021]"]
    by blast
qed

text \<open>
  C10. A release uses nothing of the update record but its \<open>currentHash\<close>: any other
  update record with the same \<open>currentHash\<close> gives the same result and the same stored
  item. A successful release stores that \<open>currentHash\<close>, the clock reading \<open>stamp\<close> of
  the release itself as \<open>lastUpdated\<close>, no lock attributes, and leaves \<open>item_id\<close> alone.
\<close>

theorem release_frame:
  "updateAndReleaseLock itemId h u now stamp fault item =
     updateAndReleaseLock itemId h
       \<lparr>item_id = i, currentHash = currentHash u, lastUpdated = l,
        lockTime = lt, lockedBy = lb\<rparr> now stamp fault item \<and>
   snd (updateAndReleaseLock itemId h u now stamp fault item) =
     (if \<not> fault \<and> release_condition h now item
      then \<lparr>item_id = item_id item, currentHash = currentHash u, lastUpdated = stamp,
            lockTime = None, lockedBy = None\<rparr>
      else item)"
proof (rule conjI)
  show "updateAndReleaseLock itemId h u now stamp fault item =
     updateAndReleaseLock itemId h
       \<lparr>item_id = i, currentHash = currentHash u, lastUpdated = l,
        lockTime = lt, lockedBy = lb\<rparr> now stamp fault item"
    by (simp add: updateAndReleaseLock_def)
next
  show "snd (updateAndReleaseLock itemId h u now stamp fault item) =
     (if \<not> fault \<and> release_condition h now item
      then \<lparr>item_id = item_id item, currentHash = currentHash u, lastUpdated = stamp,
            lockTime = None, lockedBy = None\<rparr>
      else item)"
    by (cases item) (simp add: release_store)
qed

section \<open>Properties of the work transform\<close>

lemma hash_rounds_funpow:
  "hash_rounds f w i h = (f ^^ nat (w - i)) h"
proof (induction f w i h rule: hash_rounds.induct)
  case (1 f w i h)
  show ?case
  proof (cases "i < w")
    case True
    then have "nat (w - i) = Suc (nat (w - (i + 1)))" by simp
    then show ?thesis
      using True "1"
      by (simp add: hash_rounds.simps [of f w i h] funpow_Suc_right del: funpow.simps)
  next
    case False
    then show ?thesis by (simp add: hash_rounds.simps [of f w i h])
  qed
qed

lemma generate_hashes_funpow:
  "fst (generate_hashes f c p n i h lg) = ((\<lambda>x. generateNextHash f x 50000) ^^ nat (n - i)) h"
proof (induction f c p n i h lg rule: generate_hashes.induct)
  case (1 f c p n i h lg)
  show ?case
  proof (cases "i < n")
    case True
    then have "nat (n - i) = Suc (nat (n - (i + 1)))" by simp
    then show ?thesis
      using True "1"
      by (simp add: generate_hashes.simps [of f c p n i h lg] funpow_Suc_right
          del: funpow.simps)
  next
    case False
    then show ?thesis by (simp add: generate_hashes.simps [of f c p n i h lg])
  qed
qed

text \<open>
  C8. The payload the loop produces from \<open>P\<close> in \<open>N\<close> rounds is the \<open>N\<close>-fold iterate of the
  work transform (50000 digests per round), each round fed the output of the one before.
  It depends on \<open>P\<close> and \<open>N\<close> alone: two runs with different clocks, process identifiers
  and logs give the same payload.
\<close>

theorem generate_hashes_deterministic:
  "fst (generate_hashes sha256hex clock pid N 0 P lg) =
     ((\<lambda>h. generateNextHash sha256hex h 50000) ^^ nat N) P \<and>
   generateNextHash sha256hex P 50000 = (sha256hex ^^ 50000) P \<and>
   fst (generate_hashes sha256hex clock pid N 0 P lg) =
     fst (generate_hashes sha256hex clock' pid' N 0 P lg')"
  by (simp add: generate_hashes_funpow) (simp add: generateNextHash_def hash_rounds_funpow)

section \<open>Properties of request sequences\<close>

lemma run_ops_append:
  "run_ops itemId (xs @ ys) item = run_ops itemId ys (run_ops itemId xs item)"
  by (induction xs arbitrary: item) simp_all

lemma acquire_ok_iff:
  "(case fst (acquireLockAndRead itemId pid D now took False item) of
      Inl e \<Rightarrow> False | Inr r \<Rightarrow> True) = acquire_condition now item"
  by (auto simp add: acquireLockAndRead_def send_def Let_def lockInfo_def
      split: option.splits sum.splits)

lemma release_ok_iff:
  "(case fst (updateAndReleaseLock itemId pid u now stamp False item) of
      Inl e \<Rightarrow> False | Inr r \<Rightarrow> True) = release_condition pid now item"
  by (auto simp add: updateAndReleaseLock_def send_def Let_def lockInfo_def
      split: option.splits sum.splits)

lemma others_keep_out:
  "lockedBy item \<noteq> Some h \<Longrightarrow> list_all (\<lambda>op. holder op \<noteq> h) ops \<Longrightarrow>
   lockedBy (run_ops itemId ops item) \<noteq> Some h"
proof (induction ops arbitrary: item)
  case Nil
  then show ?case by simp
next
  case (Cons op ops)
  have "lockedBy (snd (apply_op itemId op item)) \<noteq> Some h"
    using Cons.prems
    by (cases op) (auto simp add: acquire_store release_store split: if_splits)
  then show ?case using Cons by simp
qed

lemma state_before_split:
  assumes "i < j" "j \<le> length ops"
  shows "state_before itemId ops item j =
     run_ops itemId (drop (Suc i) (take j ops))
       (snd (apply_op itemId (ops ! i) (state_before itemId ops item i)))"
proof -
  have "take j ops = take i ops @ ops ! i # drop (Suc i) (take j ops)"
    using id_take_nth_drop [of i "take j ops"] assms by (simp add: min_def)
  then have "run_ops itemId (take j ops) item =
      run_ops itemId (take i ops @ ops ! i # drop (Suc i) (take j ops)) item"
    by simp
  then show ?thesis
    by (simp add: state_before_def run_ops_append)
qed

lemma segment_member:
  assumes "i < k" "k < j" "j \<le> length ops"
  shows "ops ! k \<in> set (drop (Suc i) (take j ops))"
proof -
  have "k - Suc i < length (drop (Suc i) (take j ops))"
    using assms by simp
  moreover have "drop (Suc i) (take j ops) ! (k - Suc i) = ops ! k"
    using assms by simp
  ultimately show ?thesis
    by (metis nth_mem)
qed

lemma segment_suffix:
  assumes "i < k"
  shows "set (drop (Suc k) (take j ops)) \<subseteq> set (drop (Suc i) (take j ops))"
proof -
  have "drop (Suc k) (take j ops) = drop (k - i) (drop (Suc i) (take j ops))"
    using assms by simp
  then show ?thesis
    by (metis set_drop_subset)
qed

lemma no_interleave:
  assumes c: "cycle itemId ops item h i j"
    and k: "i < k" "k < j" "is_acquire (ops ! k)" "succeeds itemId ops item k"
  shows False
proof -
  from c have j: "j < length ops" and ij: "i < j"
    and others: "list_all (\<lambda>op. holder op \<noteq> h) (drop (Suc i) (take j ops))"
    and rel: "\<not> is_acquire (ops ! j)" "holder (ops ! j) = h" "succeeds itemId ops item j"
    by (simp_all add: cycle_def silent_between_def)
  have "ops ! k \<in> set (drop (Suc i) (take j ops))"
    using segment_member [of i k j ops] k j by simp
  then have p: "holder (ops ! k) \<noteq> h"
    using others by (simp add: list_all_iff)
  obtain p D t where op: "ops ! k = OpAcquire p D t"
    using k(3) by (cases "ops ! k") simp_all
  have ac: "acquire_condition t (state_before itemId ops item k)"
    using k(4) op by (simp add: succeeds_def acquire_ok_iff)
  have after: "lockedBy (snd (apply_op itemId (ops ! k) (state_before itemId ops item k))) \<noteq> Some h"
    using op ac p by (simp add: acquire_store)
  have rest: "list_all (\<lambda>op. holder op \<noteq> h) (drop (Suc k) (take j ops))"
    using others segment_suffix [of i k j ops] k(1) by (auto simp add: list_all_iff)
  have "lockedBy (state_before itemId ops item j) \<noteq> Some h"
    using state_before_split [of k j ops itemId item] k(2) j
      others_keep_out [OF after rest, of itemId]
    by simp
  moreover have "release_condition h (op_time (ops ! j)) (state_before itemId ops item j)"
    using rel by (cases "ops ! j") (simp_all add: succeeds_def release_ok_iff)
  ultimately show False
    by (simp add: release_condition_def)
qed

lemma cycles_ordered:
  assumes c: "cycle itemId ops item h i j" and c': "cycle itemId ops item h' i' j'"
    and lt: "i < i'"
  shows "j < i'"
proof (rule ccontr)
  assume "\<not> j < i'"
  then have le: "i' \<le> j" by simp
  have "i' \<noteq> j"
    using c c' by (auto simp add: cycle_def acquired_def)
  then have "i' < j" using le by simp
  then show False
    using no_interleave [OF c lt] c' by (simp add: cycle_def acquired_def)
qed

lemma cycles_same_start:
  assumes c: "cycle itemId ops item h i j" and c': "cycle itemId ops item h' i j'"
    and lt: "j < j'"
  shows False
proof -
  have h: "h' = h" using c c' by (auto simp add: cycle_def acquired_def)
  have "ops ! j \<in> set (drop (Suc i) (take j' ops))"
    using segment_member [of i j j' ops] c c' lt by (simp add: cycle_def)
  moreover have "list_all (\<lambda>op. holder op \<noteq> h) (drop (Suc i) (take j' ops))"
    using c' h by (simp add: cycle_def silent_between_def)
  ultimately have "holder (ops ! j) \<noteq> h"
    by (simp add: list_all_iff)
  then show False using c by (simp add: cycle_def)
qed

lemma cycles_disjoint:
  assumes c: "cycle itemId ops item h i j" and c': "cycle itemId ops item h' i' j'"
    and ne: "(i, j) \<noteq> (i', j')"
  shows "j < i' \<or> j' < i"
proof -
  consider "i < i'" | "i' < i" | "i = i'" "j < j'" | "i = i'" "j' < j"
    using ne by force
  then show ?thesis
  proof cases
    case 1
    then show ?thesis using cycles_ordered [OF c c'] by simp
  next
    case 2
    then show ?thesis using cycles_ordered [OF c' c] by simp
  next
    case 3
    then show ?thesis using cycles_same_start [of itemId ops item h i j h' j'] c c' by simp
  next
    case 4
    then show ?thesis using cycles_same_start [of itemId ops item h' i j' h j] c c' by simp
  qed
qed

lemma handover_after_expiry:
  assumes "lockedBy s = Some h" "lockTime s = Some e"
    and "list_all (\<lambda>op. holder op \<noteq> h) seg"
    and "sorted (map op_time seg @ [t])"
    and "acquire_condition t (run_ops itemId seg s)"
  shows "e < t"
  using assms
proof (induction seg arbitrary: s)
  case Nil
  then show ?case by (simp add: acquire_condition_def)
next
  case (Cons op seg)
  show ?case
  proof (cases "snd (apply_op itemId op s) = s")
    case True
    then show ?thesis
      using Cons.IH [of s] Cons.prems by simp
  next
    case False
    then obtain p D now where op: "op = OpAcquire p D now" and a: "acquire_condition now s"
      using Cons.prems(1,3)
      by (cases op) (auto simp add: acquire_store release_store release_condition_def split: if_splits)
    have "e < now" using a Cons.prems(2) by (simp add: acquire_condition_def)
    moreover have "now \<le> t" using Cons.prems(4) op by simp
    ultimately show ?thesis by simp
  qed
qed


lemma sorted_segment:
  assumes "sorted (map op_time ops)" "k < k'" "k' < length ops"
  shows "sorted (map op_time (drop (Suc k) (take k' ops)) @ [op_time (ops ! k')])"
proof -
  have "drop (Suc k) (take (Suc k') ops) = drop (Suc k) (take k' ops) @ [ops ! k']"
    using assms(2,3) by (simp add: take_Suc_conv_app_nth)
  then have "map op_time (drop (Suc k) (take k' ops)) @ [op_time (ops ! k')] =
      drop (Suc k) (take (Suc k') (map op_time ops))"
    by (simp add: take_map drop_map)
  then show ?thesis
    using assms(1) by (simp add: sorted_wrt_drop sorted_wrt_take)
qed

lemma lease_handover:
  assumes a: "acquired itemId ops item h k" and a': "acquired itemId ops item h' k'"
    and lt: "k < k'" and quiet: "silent_between ops h k k'"
    and mono: "sorted (map op_time ops)"
  shows "lease_expiry (ops ! k) < op_time (ops ! k')"
proof -
  obtain D t where op: "ops ! k = OpAcquire h D t"
    using a by (cases "ops ! k") (simp_all add: acquired_def)
  obtain D' t' where op': "ops ! k' = OpAcquire h' D' t'"
    using a' by (cases "ops ! k'") (simp_all add: acquired_def)
  have len: "k' < length ops" using a' by (simp add: acquired_def)
  have ac: "acquire_condition t (state_before itemId ops item k)"
    using a op by (simp add: acquired_def succeeds_def acquire_ok_iff)
  let ?s = "snd (apply_op itemId (ops ! k) (state_before itemId ops item k))"
  have s: "lockedBy ?s = Some h" "lockTime ?s = Some (t + D)"
    using op ac by (simp_all add: acquire_store)
  have "acquire_condition t' (state_before itemId ops item k')"
    using a' op' by (simp add: acquired_def succeeds_def acquire_ok_iff)
  then have "acquire_condition t' (run_ops itemId (drop (Suc k) (take k' ops)) ?s)"
    using state_before_split [of k k' ops itemId item] lt len by simp
  moreover have "sorted (map op_time (drop (Suc k) (take k' ops)) @ [t'])"
    using sorted_segment [OF mono lt len] op' by simp
  ultimately have "t + D < t'"
    using handover_after_expiry [OF s, of "drop (Suc k) (take k' ops)" t' itemId] quiet
    by (simp add: silent_between_def)
  then show ?thesis using op op' by simp
qed

text \<open>
  C6. In any sequence of requests the table serves for the key, two different successful
  acquire-to-release cycles never interleave: one is released before the other is
  acquired, and with clock readings that do not decrease along the sequence the
  intervals from acquire time to release time do not overlap. And when a holder has
  been granted the lease and has sent nothing since, a later acquire is granted only
  after that lease has expired, so two holders never have a valid lease at once.
\<close>

theorem mutual_exclusion:
  "(cycle itemId ops item h i j \<and> cycle itemId ops item h' i' j' \<and> (i, j) \<noteq> (i', j') \<longrightarrow>
      (j < i' \<or> j' < i) \<and>
      (sorted (map op_time ops) \<longrightarrow>
         op_time (ops ! j) \<le> op_time (ops ! i') \<or> op_time (ops ! j') \<le> op_time (ops ! i))) \<and>
   (acquired itemId ops item h k \<and> acquired itemId ops item h' k' \<and> k < k' \<and>
    silent_between ops h k k' \<and> sorted (map op_time ops) \<longrightarrow>
      lease_expiry (ops ! k) < op_time (ops ! k'))"
proof (intro conjI impI)
  assume c: "cycle itemId ops item h i j \<and> cycle itemId ops item h' i' j' \<and> (i, j) \<noteq> (i', j')"
  then show d: "j < i' \<or> j' < i"
    using cycles_disjoint [of itemId ops item h i j h' i' j'] by simp
  assume mono: "sorted (map op_time ops)"
  have len: "i' < length ops" "i < length ops" "j < length ops" "j' < length ops"
    using c by (simp_all add: cycle_def)
  from d show "op_time (ops ! j) \<le> op_time (ops ! i') \<or> op_time (ops ! j') \<le> op_time (ops ! i)"
  proof
    assume "j < i'"
    then have "map op_time ops ! j \<le> map op_time ops ! i'"
      using mono len by (simp add: sorted_iff_nth_mono del: nth_map)
    then show ?thesis using len by simp
  next
    assume "j' < i"
    then have "map op_time ops ! j' \<le> map op_time ops ! i"
      using mono len by (simp add: sorted_iff_nth_mono del: nth_map)
    then show ?thesis using len by simp
  qed
next
  assume "acquired itemId ops item h k \<and> acquired itemId ops item h' k' \<and> k < k' \<and>
    silent_between ops h k k' \<and> sorted (map op_time ops)"
  then show "lease_expiry (ops ! k) < op_time (ops ! k')"
    using lease_handover [of itemId ops item h k h' k'] by simp
qed

lemmas seq_defs =
  two_cycles_def cycle_def acquired_def silent_between_def succeeds_def state_before_def
  createInitialItem_def acquireLockAndRead_def send_def acquire_condition_def
  acquire_update_def lockInfo_def updateAndReleaseLock_def release_condition_def
  release_update_def

theorem mutual_exclusion_witness:
  "cycle ''HASH-CHAIN-1'' two_cycles (createInitialItem 900) ''A'' 0 1 \<and>
   cycle ''HASH-CHAIN-1'' two_cycles (createInitialItem 900) ''B'' 2 3 \<and>
   (1::nat) < 2 \<and>
   op_time (two_cycles ! 1) \<le> op_time (two_cycles ! 2) \<and>
   acquired ''HASH-CHAIN-1'' two_cycles (createInitialItem 900) ''A'' 4 \<and>
   acquired ''HASH-CHAIN-1'' two_cycles (createInitialItem 900) ''B'' 5 \<and>
   lease_expiry (two_cycles ! 4) < op_time (two_cycles ! 5)"
proof -
  have c1: "cycle ''HASH-CHAIN-1'' two_cycles (createInitialItem 900) ''A'' 0 1"
    by (simp add: seq_defs)
  have c2: "cycle ''HASH-CHAIN-1'' two_cycles (createInitialItem 900) ''B'' 2 3"
    by (simp add: seq_defs)
  have a1: "acquired ''HASH-CHAIN-1'' two_cycles (createInitialItem 900) ''A'' 4"
    by (simp add: seq_defs)
  have a2: "acquired ''HASH-CHAIN-1'' two_cycles (createInitialItem 900) ''B'' 5"
    by (simp add: seq_defs)
  have q: "silent_between two_cycles ''A'' 4 5"
    by (simp add: two_cycles_def silent_between_def)
  have m: "sorted (map op_time two_cycles)"
    by (simp add: two_cycles_def)
  have ne: "((0::nat), (1::nat)) \<noteq> (2, 3)" by simp
  show ?thesis
    using c1 c2 a1 a2 q m ne
      mutual_exclusion [where itemId = "''HASH-CHAIN-1''" and ops = two_cycles
        and item = "createInitialItem 900" and h = "''A''" and i = 0 and j = 1
        and h' = "''B''" and i' = 2 and j' = 3 and k = 4 and k' = 5]
    by (simp add: two_cycles_def)
qed

section \<open>Properties of the executor\<close>

lemma generate_hashes_log:
  "\<exists>rest. snd (generate_hashes f c p n i h lg) = lg @ rest \<and>
     (\<forall>ev \<in> set rest. \<exists>a b d. action ev = GeneratedHash a b d)"
proof (induction f c p n i h lg rule: generate_hashes.induct)
  case (1 f c p n i h lg)
  show ?case
  proof (cases "i < n")
    case True
    from "1" [OF True] obtain rest where
      r: "snd (generate_hashes f c p n (i + 1) (generateNextHash f h 50000)
            (lg @ [log p (GeneratedHash (i + 1) n (snd (c i) - fst (c i))) None None])) =
          (lg @ [log p (GeneratedHash (i + 1) n (snd (c i) - fst (c i))) None None]) @ rest"
      and a: "\<forall>ev \<in> set rest. \<exists>a b d. action ev = GeneratedHash a b d"
      by blast
    have "snd (generate_hashes f c p n i h lg) =
        lg @ (log p (GeneratedHash (i + 1) n (snd (c i) - fst (c i))) None None # rest)"
      using True r by (simp add: generate_hashes.simps [of f c p n i h lg])
    moreover have "\<forall>ev \<in> set (log p (GeneratedHash (i + 1) n (snd (c i) - fst (c i))) None None # rest).
        \<exists>a b d. action ev = GeneratedHash a b d"
      using a by (simp add: log_def)
    ultimately show ?thesis by blast
  next
    case False
    then show ?thesis by (simp add: generate_hashes.simps [of f c p n i h lg])
  qed
qed

lemma acquire_log_counts:
  "acquire_attempts (snd (snd (acquireLockAndRead itemId pid D now took fault item))) = 0"
  "backoff_sleeps (snd (snd (acquireLockAndRead itemId pid D now took fault item))) = 0"
  by (simp_all add: acquireLockAndRead_def send_def Let_def acquire_attempts_def
      backoff_sleeps_def log_def split: sum.splits option.splits)

lemma counts_append:
  "acquire_attempts (xs @ ys) = acquire_attempts xs + acquire_attempts ys"
  "backoff_sleeps (xs @ ys) = backoff_sleeps xs + backoff_sleeps ys"
  by (simp_all add: acquire_attempts_def backoff_sleeps_def)

lemma counts_Cons:
  "acquire_attempts (log p a q s # xs) =
     (if a = AcquiringLock then 1 else 0) + acquire_attempts xs"
  "backoff_sleeps (log p a q s # xs) =
     (if is_RetryingIn a then 1 else 0) + backoff_sleeps xs"
  by (simp_all add: acquire_attempts_def backoff_sleeps_def log_def)

lemma counts_Nil: "acquire_attempts [] = 0" "backoff_sleeps [] = 0"
  by (simp_all add: acquire_attempts_def backoff_sleeps_def)

lemma attempt_body_log:
  "\<exists>rest. snd (snd (attempt_body f e itemId pid n store lg)) =
     lg @ log pid AcquiringLock None None # rest \<and>
     acquire_attempts rest = 0 \<and> backoff_sleeps rest = 0"
proof -
  obtain r s1 lgA where a: "acquireLockAndRead itemId pid 30 (acquire_now e) (acquire_took e)
      (acquire_fault e) (run_ops itemId (others_before e) store) = (r, s1, lgA)"
    by (metis prod_cases3)
  have c: "acquire_attempts lgA = 0" "backoff_sleeps lgA = 0"
    using acquire_log_counts [of itemId pid 30 "acquire_now e" "acquire_took e"
        "acquire_fault e" "run_ops itemId (others_before e) store"] a by simp_all
  show ?thesis
  proof (cases r)
    case (Inl err)
    then show ?thesis
      using a c by (simp add: attempt_body_def)
  next
    case (Inr item)
    let ?lg2 = "lg @ [log pid AcquiringLock None None] @ lgA @
         [log pid LockAcquired None (Some True), log pid GeneratingHashes None None]"
    obtain nh lgH where g: "generate_hashes f (hash_clock e) pid n 0 (currentHash item) ?lg2
        = (nh, lgH)"
      by (metis surj_pair)
    obtain restH where h: "lgH = ?lg2 @ restH"
      and ah: "\<forall>ev \<in> set restH. \<exists>a b d. action ev = GeneratedHash a b d"
      using generate_hashes_log [of f "hash_clock e" pid n 0 "currentHash item" ?lg2] g by auto
    have "filter (\<lambda>ev. action ev = AcquiringLock) restH = []"
      using ah by (auto simp: filter_empty_conv)
    moreover have "filter (\<lambda>ev. is_RetryingIn (action ev)) restH = []"
      using ah by (auto simp: filter_empty_conv)
    ultimately have cr: "acquire_attempts restH = 0" "backoff_sleeps restH = 0"
      by (simp_all add: acquire_attempts_def backoff_sleeps_def)
    obtain r2 s2 where u: "updateAndReleaseLock itemId pid
        (item\<lparr>currentHash := nh, lastUpdated := update_now e\<rparr>)
        (release_now e) (release_stamp e) (release_fault e)
        (run_ops itemId (others_during e) s1) = (r2, s2)"
      by (metis surj_pair)
    show ?thesis
    proof (cases r2)
      case (Inl err)
      have "snd (snd (attempt_body f e itemId pid n store lg)) =
          lg @ log pid AcquiringLock None None #
            (lgA @ [log pid LockAcquired None (Some True), log pid GeneratingHashes None None]
               @ restH)"
        using a Inr g u Inl h by (simp add: attempt_body_def)
      moreover have "acquire_attempts (lgA @ [log pid LockAcquired None (Some True),
          log pid GeneratingHashes None None] @ restH) = 0"
        using c cr by (simp add: counts_append counts_Cons counts_Nil)
      moreover have "backoff_sleeps (lgA @ [log pid LockAcquired None (Some True),
          log pid GeneratingHashes None None] @ restH) = 0"
        using c cr by (simp add: counts_append counts_Cons counts_Nil)
      ultimately show ?thesis by blast
    next
      case (Inr upd)
      have "snd (snd (attempt_body f e itemId pid n store lg)) =
          lg @ log pid AcquiringLock None None #
            (lgA @ [log pid LockAcquired None (Some True), log pid GeneratingHashes None None]
               @ restH @ [log pid ChainExtended (Some n) (Some True)])"
        using a \<open>r = Inr item\<close> g u Inr h by (simp add: attempt_body_def)
      moreover have "acquire_attempts (lgA @ [log pid LockAcquired None (Some True),
          log pid GeneratingHashes None None] @ restH @
          [log pid ChainExtended (Some n) (Some True)]) = 0"
        using c cr by (simp add: counts_append counts_Cons counts_Nil)
      moreover have "backoff_sleeps (lgA @ [log pid LockAcquired None (Some True),
          log pid GeneratingHashes None None] @ restH @
          [log pid ChainExtended (Some n) (Some True)]) = 0"
        using c cr by (simp add: counts_append counts_Cons counts_Nil)
      ultimately show ?thesis by blast
    qed
  qed
qed

lemma attempt_body_counts:
  "acquire_attempts (snd (snd (attempt_body f e itemId pid n store lg))) =
     Suc (acquire_attempts lg)"
  "backoff_sleeps (snd (snd (attempt_body f e itemId pid n store lg))) = backoff_sleeps lg"
proof -
  obtain rest where r: "snd (snd (attempt_body f e itemId pid n store lg)) =
      lg @ log pid AcquiringLock None None # rest"
    and c: "acquire_attempts rest = 0" "backoff_sleeps rest = 0"
    using attempt_body_log by blast
  show "acquire_attempts (snd (snd (attempt_body f e itemId pid n store lg))) =
     Suc (acquire_attempts lg)"
    using c by (simp add: r counts_append counts_Cons)
  show "backoff_sleeps (snd (snd (attempt_body f e itemId pid n store lg))) = backoff_sleeps lg"
    using c by (simp add: r counts_append counts_Cons)
qed

lemma attempt_body_success:
  "fst (attempt_body f e itemId pid n store lg) = Inr u \<Longrightarrow>
   action (last (snd (snd (attempt_body f e itemId pid n store lg)))) = ChainExtended"
  by (auto simp add: attempt_body_def log_def split: prod.splits sum.splits)

lemma retry_loop_step:
  assumes "attempt < maxRetries"
    and "attempt_body f (env attempt) itemId pid n store lg = (Inl err, store', lg')"
    and "is_LockError err"
  shows "retry_loop f env itemId pid n maxRetries attempt store lg =
     retry_loop f env itemId pid n maxRetries (attempt + 1) store'
       (lg' @ [log pid LockFailed None (Some False),
               log pid (RetryingIn (backoff (env attempt))) None None])"
  using assms
  by (simp add: retry_loop.simps [of f env itemId pid n maxRetries attempt store lg])

lemma retry_loop_prefix:
  "\<exists>rest. snd (snd (retry_loop f env itemId pid n maxRetries attempt store lg)) = lg @ rest"
proof (induction f env itemId pid n maxRetries attempt store lg rule: retry_loop.induct)
  case (1 f env itemId pid n maxRetries attempt store lg)
  obtain r s' lg' where b: "attempt_body f (env attempt) itemId pid n store lg = (r, s', lg')"
    by (metis prod_cases3)
  obtain rest' where p: "lg' = lg @ rest'"
    using attempt_body_log [of f "env attempt" itemId pid n store lg] b by auto
  show ?case
  proof (cases "attempt \<le> maxRetries")
    case False
    then show ?thesis
      by (simp add: retry_loop.simps [of f env itemId pid n maxRetries attempt store lg])
  next
    case le: True
    show ?thesis
    proof (cases r)
      case (Inr u)
      then show ?thesis
        using le b p
        by (simp add: retry_loop.simps [of f env itemId pid n maxRetries attempt store lg])
    next
      case (Inl err)
      show ?thesis
      proof (cases "is_LockError err \<and> attempt < maxRetries")
        case True
        from True have t1: "is_LockError err" and t2: "attempt < maxRetries" by auto
        note ih = "1.IH" [OF le b [symmetric] Inl refl t1 t2]
        show ?thesis
          using ih retry_loop_step [where env = env and attempt = attempt, OF t2 b [unfolded Inl] t1] p by auto
      next
        case False
        then show ?thesis
          using le b p Inl
          by (auto simp add: retry_loop.simps [of f env itemId pid n maxRetries attempt store lg])
      qed
    qed
  qed
qed

lemma retry_loop_first:
  assumes "attempt \<le> maxRetries"
  shows "\<exists>rest. snd (snd (retry_loop f env itemId pid n maxRetries attempt store lg)) =
     lg @ log pid AcquiringLock None None # rest"
proof -
  obtain r s' lg' where b: "attempt_body f (env attempt) itemId pid n store lg = (r, s', lg')"
    by (metis prod_cases3)
  obtain rest' where p: "lg' = lg @ log pid AcquiringLock None None # rest'"
    using attempt_body_log [of f "env attempt" itemId pid n store lg] b by auto
  show ?thesis
  proof (cases r)
    case (Inr u)
    then show ?thesis
      using assms b p
      by (simp add: retry_loop.simps [of f env itemId pid n maxRetries attempt store lg])
  next
    case (Inl err)
    show ?thesis
    proof (cases "is_LockError err \<and> attempt < maxRetries")
      case True
      from True have t1: "is_LockError err" and t2: "attempt < maxRetries" by auto
      obtain rest where "snd (snd (retry_loop f env itemId pid n maxRetries (attempt + 1) s'
          (lg' @ [log pid LockFailed None (Some False),
                  log pid (RetryingIn (backoff (env attempt))) None None]))) =
        (lg' @ [log pid LockFailed None (Some False),
                log pid (RetryingIn (backoff (env attempt))) None None]) @ rest"
        using retry_loop_prefix by blast
      then show ?thesis
        using retry_loop_step [where env = env and attempt = attempt, OF t2 b [unfolded Inl] t1] p by simp
    next
      case False
      then show ?thesis
        using assms b p Inl
        by (auto simp add: retry_loop.simps [of f env itemId pid n maxRetries attempt store lg])
    qed
  qed
qed


lemma retry_loop_counts:
  "attempt \<le> maxRetries \<Longrightarrow>
   acquire_attempts (snd (snd (retry_loop f env itemId pid n maxRetries attempt store lg)))
     \<le> acquire_attempts lg + nat (maxRetries + 1 - attempt) \<and>
   Suc (acquire_attempts lg) \<le>
     acquire_attempts (snd (snd (retry_loop f env itemId pid n maxRetries attempt store lg))) \<and>
   acquire_attempts (snd (snd (retry_loop f env itemId pid n maxRetries attempt store lg))) +
     backoff_sleeps lg =
     Suc (acquire_attempts lg) +
     backoff_sleeps (snd (snd (retry_loop f env itemId pid n maxRetries attempt store lg)))"
proof (induction f env itemId pid n maxRetries attempt store lg rule: retry_loop.induct)
  case (1 f env itemId pid n maxRetries attempt store lg)
  obtain r s' lg' where b: "attempt_body f (env attempt) itemId pid n store lg = (r, s', lg')"
    by (metis prod_cases3)
  have c: "acquire_attempts lg' = Suc (acquire_attempts lg)"
    "backoff_sleeps lg' = backoff_sleeps lg"
    using attempt_body_counts [of f "env attempt" itemId pid n store lg] b by simp_all
  show ?case
  proof (cases r)
    case (Inr u)
    then show ?thesis
      using "1.prems" b c
      by (simp add: retry_loop.simps [of f env itemId pid n maxRetries attempt store lg])
  next
    case (Inl err)
    show ?thesis
    proof (cases "is_LockError err \<and> attempt < maxRetries")
      case True
      have le: "attempt + 1 \<le> maxRetries" using True by simp
      from True have t1: "is_LockError err" and t2: "attempt < maxRetries" by auto
      note ih = "1.IH" [OF "1.prems" b [symmetric] Inl refl t1 t2 le]
      note e = retry_loop_step [where env = env and attempt = attempt, OF t2 b [unfolded Inl] t1]
      have n: "nat (maxRetries + 1 - attempt) = Suc (nat (maxRetries + 1 - (attempt + 1)))"
        using le by simp
      show ?thesis
        using ih c unfolding e n
        by (simp add: counts_append counts_Cons counts_Nil)
    next
      case False
      then show ?thesis
        using "1.prems" b c Inl
        by (auto simp add: retry_loop.simps [of f env itemId pid n maxRetries attempt store lg]
            counts_append counts_Cons counts_Nil)
    qed
  qed
qed

lemma retry_loop_result:
  "attempt \<le> maxRetries \<Longrightarrow>
   (\<exists>e. fst (retry_loop f env itemId pid n maxRetries attempt store lg) = Inl e) \<or>
   action (last (snd (snd (retry_loop f env itemId pid n maxRetries attempt store lg)))) =
     ChainExtended"
proof (induction f env itemId pid n maxRetries attempt store lg rule: retry_loop.induct)
  case (1 f env itemId pid n maxRetries attempt store lg)
  obtain r s' lg' where b: "attempt_body f (env attempt) itemId pid n store lg = (r, s', lg')"
    by (metis prod_cases3)
  show ?case
  proof (cases r)
    case (Inr u)
    then have "action (last lg') = ChainExtended"
      using attempt_body_success [of f "env attempt" itemId pid n store lg u] b by simp
    then show ?thesis
      using "1.prems" b Inr
      by (simp add: retry_loop.simps [of f env itemId pid n maxRetries attempt store lg])
  next
    case (Inl err)
    show ?thesis
    proof (cases "is_LockError err \<and> attempt < maxRetries")
      case True
      have le: "attempt + 1 \<le> maxRetries" using True by simp
      from True have t1: "is_LockError err" and t2: "attempt < maxRetries" by auto
      note ih = "1.IH" [OF "1.prems" b [symmetric] Inl refl t1 t2 le]
      note e = retry_loop_step [where env = env and attempt = attempt, OF t2 b [unfolded Inl] t1]
      show ?thesis using ih unfolding e .
    next
      case False
      then show ?thesis
        using "1.prems" b Inl
        by (auto simp add: retry_loop.simps [of f env itemId pid n maxRetries attempt store lg])
    qed
  qed
qed

lemma acquire_result_cases:
  "fst (acquireLockAndRead itemId pid D now took fault item) =
     (if fault then Inl OtherError
      else if acquire_condition now item
        then Inr (item\<lparr>lockTime := Some (now + D), lockedBy := Some pid\<rparr>)
        else (case lockInfo (Some item) of
                Inl e \<Rightarrow> Inl e
              | Inr info \<Rightarrow> Inl (LockError (FailedToAcquireLock itemId info) (Some item))))"
  by (simp add: acquireLockAndRead_def send_def acquire_update_def Let_def split: sum.splits)

lemma release_result_cases:
  "fst (updateAndReleaseLock itemId pid u now stamp fault item) =
     (if fault then Inl OtherError
      else if release_condition pid now item
        then Inr (item\<lparr>currentHash := currentHash u, lastUpdated := stamp,
                       lockTime := None, lockedBy := None\<rparr>)
        else (case lockInfo (Some item) of
                Inl e \<Rightarrow> Inl e
              | Inr info \<Rightarrow> Inl (LockError (FailedToUpdateItem itemId info) (Some item))))"
  by (simp add: updateAndReleaseLock_def send_def release_update_def Let_def split: sum.splits)

lemma lockInfo_not_LockError:
  "lockInfo cs = Inl e \<Longrightarrow> e = RangeError"
  by (auto simp add: lockInfo_def split: option.splits if_splits)

lemma failed_update_is_release:
  assumes "fst (attempt_body f e itemId pid n store lg) =
      Inl (LockError (FailedToUpdateItem i info) cs)"
  shows "acquire_condition (acquire_now e) (run_ops itemId (others_before e) store) \<and>
     \<not> release_condition pid (release_now e)
         (run_ops itemId (others_during e)
            ((run_ops itemId (others_before e) store)
               \<lparr>lockTime := Some (acquire_now e + 30), lockedBy := Some pid\<rparr>))"
proof -
  let ?s0 = "run_ops itemId (others_before e) store"
  obtain r s1 lgA where a: "acquireLockAndRead itemId pid 30 (acquire_now e) (acquire_took e)
      (acquire_fault e) ?s0 = (r, s1, lgA)"
    by (metis prod_cases3)
  have r: "r = fst (acquireLockAndRead itemId pid 30 (acquire_now e) (acquire_took e)
      (acquire_fault e) ?s0)" and s1: "s1 = fst (snd (acquireLockAndRead itemId pid 30
      (acquire_now e) (acquire_took e) (acquire_fault e) ?s0))"
    using a by simp_all
  show ?thesis
  proof (cases r)
    case (Inl err)
    then have "err = LockError (FailedToUpdateItem i info) cs"
      using assms a by (simp add: attempt_body_def)
    then show ?thesis
      using Inl r lockInfo_not_LockError [of "Some ?s0"]
      by (auto simp add: acquire_result_cases split: if_splits sum.splits)
  next
    case (Inr item)
    then have g: "\<not> acquire_fault e" "acquire_condition (acquire_now e) ?s0"
      using r by (auto simp add: acquire_result_cases split: if_splits sum.splits)
    then have s1': "s1 = ?s0\<lparr>lockTime := Some (acquire_now e + 30), lockedBy := Some pid\<rparr>"
      using s1 by (simp add: acquire_store)
    obtain nh lgH where gh: "generate_hashes f (hash_clock e) pid n 0 (currentHash item)
        (lg @ [log pid AcquiringLock None None] @ lgA @
         [log pid LockAcquired None (Some True), log pid GeneratingHashes None None]) = (nh, lgH)"
      by (metis surj_pair)
    have "fst (updateAndReleaseLock itemId pid
        (item\<lparr>currentHash := nh, lastUpdated := update_now e\<rparr>)
        (release_now e) (release_stamp e) (release_fault e)
        (run_ops itemId (others_during e) s1)) = Inl (LockError (FailedToUpdateItem i info) cs)"
      using assms a Inr gh by (auto simp add: attempt_body_def split: prod.splits sum.splits)
    then have "\<not> release_condition pid (release_now e) (run_ops itemId (others_during e) s1)"
      by (auto simp add: release_result_cases split: if_splits)
    then show ?thesis using g s1' by simp
  qed
qed

lemmas run_defs =
  extendHashChain_def attempt_body_def createInitialItem_def item_held_by_A_def
  acquireLockAndRead_def send_def acquire_condition_def acquire_update_def lockInfo_def
  updateAndReleaseLock_def release_condition_def release_update_def

text \<open>
  C9. With \<open>maxRetries \<ge> 1\<close> a run makes at least one and at most \<open>maxRetries\<close> acquire
  attempts, one per pass of the loop, and sleeps once between two passes. It ends with an
  error, or with a success whose last log line is the extended chain. The loop is a total
  function: its termination is proved with the measure \<open>maxRetries + 1 - attempt\<close>.
\<close>

theorem extendHashChain_bounded:
  assumes "1 \<le> maxRetries"
  shows "acquire_attempts (snd (snd (extendHashChain f env itemId pid n maxRetries store)))
           \<le> nat maxRetries \<and>
         1 \<le> acquire_attempts (snd (snd (extendHashChain f env itemId pid n maxRetries store))) \<and>
         Suc (backoff_sleeps (snd (snd (extendHashChain f env itemId pid n maxRetries store)))) =
           acquire_attempts (snd (snd (extendHashChain f env itemId pid n maxRetries store))) \<and>
         ((\<exists>e. fst (extendHashChain f env itemId pid n maxRetries store) = Inl e) \<or>
          action (last (snd (snd (extendHashChain f env itemId pid n maxRetries store)))) =
            ChainExtended)"
  using assms
    retry_loop_counts [of 1 maxRetries f env itemId pid n store "[log pid Started (Some n) None]"]
    retry_loop_result [of 1 maxRetries f env itemId pid n store "[log pid Started (Some n) None]"]
  by (simp add: extendHashChain_def counts_Cons counts_Nil)

theorem extendHashChain_bounded_witness:
  "acquire_attempts (snd (snd
      (extendHashChain rev env_steal ''HASH-CHAIN-1'' ''A'' 1 2 (createInitialItem 900)))) \<le> 2 \<and>
   1 \<le> acquire_attempts (snd (snd
      (extendHashChain rev env_steal ''HASH-CHAIN-1'' ''A'' 1 2 (createInitialItem 900))))"
  using extendHashChain_bounded [of 2 rev env_steal "''HASH-CHAIN-1''" "''A''" 1
      "createInitialItem 900"]
  by simp

text \<open>
  C5, as the claim states it, fails on the attempt count: the error of an exhausted run
  is the \<open>LockError\<close> of its last acquire, and that value is the same after one attempt
  (\<open>maxRetries = 1\<close>) and after two (\<open>maxRetries = 2\<close>).
\<close>

theorem exhausted_error_counterexample:
  "fst (extendHashChain rev env_contended ''HASH-CHAIN-1'' ''B'' 3 1 item_held_by_A) =
     Inl (LockError (FailedToAcquireLock ''HASH-CHAIN-1'' (LockedByUntil ''A'' 2000))
            (Some item_held_by_A)) \<and>
   acquire_attempts (snd (snd
     (extendHashChain rev env_contended ''HASH-CHAIN-1'' ''B'' 3 1 item_held_by_A))) = 1 \<and>
   fst (extendHashChain rev env_contended ''HASH-CHAIN-1'' ''B'' 3 2 item_held_by_A) =
     Inl (LockError (FailedToAcquireLock ''HASH-CHAIN-1'' (LockedByUntil ''A'' 2000))
            (Some item_held_by_A)) \<and>
   acquire_attempts (snd (snd
     (extendHashChain rev env_contended ''HASH-CHAIN-1'' ''B'' 3 2 item_held_by_A))) = 2"
  by (simp add: run_defs env_contended_def retry_loop.simps acquire_attempts_def log_def)

text \<open>
  C5, amended. When the acquire of pass \<open>maxRetries\<close> meets a lease that has not expired
  and raises its \<open>LockError\<close> (the \<open>lockInfo\<close> of the message can be formatted), the run
  ends with that \<open>LockError\<close>, which carries the stored item with the contending holder
  and expiry and no attempt count; the log ends with the failed lock and the reached
  maximum, without a backoff. With \<open>maxRetries = 1\<close> that is the whole run: one acquire
  attempt, no sleep.
\<close>

theorem last_attempt_contended:
  assumes "lockTime (run_ops itemId (others_before (env maxRetries)) store) = Some e"
    and "\<not> e < acquire_now (env maxRetries)"
    and "\<not> acquire_fault (env maxRetries)"
    and "lockInfo (Some (run_ops itemId (others_before (env maxRetries)) store)) = Inr info"
  shows "retry_loop f env itemId pid n maxRetries maxRetries store lg =
     (Inl (LockError (FailedToAcquireLock itemId info)
             (Some (run_ops itemId (others_before (env maxRetries)) store))),
      run_ops itemId (others_before (env maxRetries)) store,
      lg @ [log pid AcquiringLock None None,
            log pid (LockFailureResponseTook (acquire_took (env maxRetries))) None None,
            log pid LockFailed None (Some False),
            log pid MaxRetriesReached None (Some False)]) \<and>
   (maxRetries = 1 \<longrightarrow>
      extendHashChain f env itemId pid n maxRetries store =
        (Inl (LockError (FailedToAcquireLock itemId info)
                (Some (run_ops itemId (others_before (env 1)) store))),
         run_ops itemId (others_before (env 1)) store,
         [log pid Started (Some n) None,
          log pid AcquiringLock None None,
          log pid (LockFailureResponseTook (acquire_took (env 1))) None None,
          log pid LockFailed None (Some False),
          log pid MaxRetriesReached None (Some False)]))"
proof -
  have acq: "acquireLockAndRead itemId pid 30 (acquire_now (env maxRetries))
      (acquire_took (env maxRetries)) False
      (run_ops itemId (others_before (env maxRetries)) store) =
    (Inl (LockError (FailedToAcquireLock itemId info)
            (Some (run_ops itemId (others_before (env maxRetries)) store))),
     run_ops itemId (others_before (env maxRetries)) store,
     [log pid (LockFailureResponseTook (acquire_took (env maxRetries))) None None])"
    using acquire_rejected [OF assms(1) assms(2), of itemId pid 30
        "acquire_took (env maxRetries)"] assms(4)
    by simp
  have loop: "\<And>lg. retry_loop f env itemId pid n maxRetries maxRetries store lg =
     (Inl (LockError (FailedToAcquireLock itemId info)
             (Some (run_ops itemId (others_before (env maxRetries)) store))),
      run_ops itemId (others_before (env maxRetries)) store,
      lg @ [log pid AcquiringLock None None,
            log pid (LockFailureResponseTook (acquire_took (env maxRetries))) None None,
            log pid LockFailed None (Some False),
            log pid MaxRetriesReached None (Some False)])"
  proof -
    fix lg
    show "retry_loop f env itemId pid n maxRetries maxRetries store lg =
     (Inl (LockError (FailedToAcquireLock itemId info)
             (Some (run_ops itemId (others_before (env maxRetries)) store))),
      run_ops itemId (others_before (env maxRetries)) store,
      lg @ [log pid AcquiringLock None None,
            log pid (LockFailureResponseTook (acquire_took (env maxRetries))) None None,
            log pid LockFailed None (Some False),
            log pid MaxRetriesReached None (Some False)])"
      using assms(3) acq
      by (simp add: retry_loop.simps [of f env itemId pid n maxRetries maxRetries store lg]
          attempt_body_def)
  qed
  show ?thesis
    using loop [of lg] loop [of "[log pid Started (Some n) None]"]
    by (auto simp add: extendHashChain_def)
qed

theorem last_attempt_contended_witness:
  "extendHashChain rev env_contended ''HASH-CHAIN-1'' ''B'' 3 1 item_held_by_A =
     (Inl (LockError (FailedToAcquireLock ''HASH-CHAIN-1'' (LockedByUntil ''A'' 2000))
            (Some item_held_by_A)),
      item_held_by_A,
      [log ''B'' Started (Some 3) None,
       log ''B'' AcquiringLock None None,
       log ''B'' (LockFailureResponseTook 5) None None,
       log ''B'' LockFailed None (Some False),
       log ''B'' MaxRetriesReached None (Some False)])"
proof -
  have h1: "lockTime (run_ops ''HASH-CHAIN-1'' (others_before (env_contended 1)) item_held_by_A)
      = Some 2000"
    by (simp add: env_contended_def item_held_by_A_def)
  have h2: "\<not> 2000 < acquire_now (env_contended 1)"
    by (simp add: env_contended_def)
  have h3: "\<not> acquire_fault (env_contended 1)"
    by (simp add: env_contended_def)
  have h4: "lockInfo (Some (run_ops ''HASH-CHAIN-1'' (others_before (env_contended 1))
      item_held_by_A)) = Inr (LockedByUntil ''A'' 2000)"
    by (simp add: env_contended_def item_held_by_A_def createInitialItem_def lockInfo_def)
  show ?thesis
    using last_attempt_contended [where itemId = "''HASH-CHAIN-1''" and env = env_contended
        and maxRetries = 1 and store = item_held_by_A and e = 2000
        and info = "LockedByUntil ''A'' 2000" and f = rev and pid = "''B''" and n = 3
        and lg = "[]", OF h1 h2 h3 h4]
    by (simp add: env_contended_def item_held_by_A_def createInitialItem_def)
qed

text \<open>
  C1, as the claim states it, fails: a \<open>LockError\<close> of the release is caught by the same
  handler as one of the acquire. In \<open>env_steal\<close> with \<open>maxRetries = 2\<close> the first pass
  loses its lease while hashing and its release is rejected; the run then sleeps,
  acquires again, generates the hashes again and succeeds.
\<close>

theorem release_failure_counterexample:
  "fst (attempt_body rev (env_steal 1) ''HASH-CHAIN-1'' ''A'' 1 (createInitialItem 900)
          [log ''A'' Started (Some 1) None]) =
     Inl (LockError (FailedToUpdateItem ''HASH-CHAIN-1'' (LockedByUntil ''B'' 1061))
            (Some \<lparr>item_id = ''HASH-CHAIN-1'',
                   currentHash =
                     ''0000000000000000000000000000000000000000000000000000000000000000'',
                   lastUpdated = 900, lockTime = Some 1061, lockedBy = Some ''B''\<rparr>)) \<and>
   fst (extendHashChain rev env_steal ''HASH-CHAIN-1'' ''A'' 1 2 (createInitialItem 900)) =
     Inr () \<and>
   map action (snd (snd
     (extendHashChain rev env_steal ''HASH-CHAIN-1'' ''A'' 1 2 (createInitialItem 900)))) =
   [Started, AcquiringLock, LockRequestTook 5, LockAcquired, GeneratingHashes,
    GeneratedHash 1 1 40000, LockFailed, RetryingIn 42, AcquiringLock, LockRequestTook 5,
    LockAcquired, GeneratingHashes, GeneratedHash 1 1 500, ChainExtended]"
  by (simp add: run_defs env_steal_def retry_loop.simps generate_hashes.simps log_def)

text \<open>
  C1, amended. A release that fails with a \<open>LockError\<close> (its message is the one of
  \<open>updateAndReleaseLock\<close>: the pass had been granted the lease and its release condition
  did not hold) is handled like a failed acquire. While \<open>attempt < maxRetries\<close>
  the run logs the failure, sleeps the backoff and goes on with the next pass, whose first
  step is a new acquire attempt. Only at the last pass, \<open>attempt = maxRetries\<close>, is the
  failed release the error of the run.
\<close>

theorem release_failure_retried:
  assumes "attempt \<le> maxRetries"
    and "attempt_body f (env attempt) itemId pid n store lg =
           (Inl (LockError (FailedToUpdateItem i info) cs), store', lg')"
  shows "(acquire_condition (acquire_now (env attempt))
            (run_ops itemId (others_before (env attempt)) store) \<and>
          \<not> release_condition pid (release_now (env attempt))
              (run_ops itemId (others_during (env attempt))
                 ((run_ops itemId (others_before (env attempt)) store)
                    \<lparr>lockTime := Some (acquire_now (env attempt) + 30),
                     lockedBy := Some pid\<rparr>))) \<and>
         (if attempt < maxRetries
         then retry_loop f env itemId pid n maxRetries attempt store lg =
                retry_loop f env itemId pid n maxRetries (attempt + 1) store'
                  (lg' @ [log pid LockFailed None (Some False),
                          log pid (RetryingIn (backoff (env attempt))) None None]) \<and>
              (\<exists>rest. snd (snd (retry_loop f env itemId pid n maxRetries attempt store lg)) =
                 lg' @ [log pid LockFailed None (Some False),
                        log pid (RetryingIn (backoff (env attempt))) None None,
                        log pid AcquiringLock None None] @ rest)
         else retry_loop f env itemId pid n maxRetries attempt store lg =
                (Inl (LockError (FailedToUpdateItem i info) cs), store',
                 lg' @ [log pid LockFailed None (Some False),
                        log pid MaxRetriesReached None (Some False)]))"
proof (rule conjI)
  show "acquire_condition (acquire_now (env attempt))
            (run_ops itemId (others_before (env attempt)) store) \<and>
          \<not> release_condition pid (release_now (env attempt))
              (run_ops itemId (others_during (env attempt))
                 ((run_ops itemId (others_before (env attempt)) store)
                    \<lparr>lockTime := Some (acquire_now (env attempt) + 30),
                     lockedBy := Some pid\<rparr>))"
    using failed_update_is_release [of f "env attempt" itemId pid n store lg i info cs] assms(2)
    by simp
next
  show "if attempt < maxRetries
         then retry_loop f env itemId pid n maxRetries attempt store lg =
                retry_loop f env itemId pid n maxRetries (attempt + 1) store'
                  (lg' @ [log pid LockFailed None (Some False),
                          log pid (RetryingIn (backoff (env attempt))) None None]) \<and>
              (\<exists>rest. snd (snd (retry_loop f env itemId pid n maxRetries attempt store lg)) =
                 lg' @ [log pid LockFailed None (Some False),
                        log pid (RetryingIn (backoff (env attempt))) None None,
                        log pid AcquiringLock None None] @ rest)
         else retry_loop f env itemId pid n maxRetries attempt store lg =
                (Inl (LockError (FailedToUpdateItem i info) cs), store',
                 lg' @ [log pid LockFailed None (Some False),
                        log pid MaxRetriesReached None (Some False)])"
  proof (cases "attempt < maxRetries")
  case True
  have e: "retry_loop f env itemId pid n maxRetries attempt store lg =
      retry_loop f env itemId pid n maxRetries (attempt + 1) store'
        (lg' @ [log pid LockFailed None (Some False),
                log pid (RetryingIn (backoff (env attempt))) None None])"
    using retry_loop_step [where env = env and attempt = attempt, OF True assms(2)] by simp
  have "attempt + 1 \<le> maxRetries" using True by simp
  then obtain rest where
    "snd (snd (retry_loop f env itemId pid n maxRetries (attempt + 1) store'
        (lg' @ [log pid LockFailed None (Some False),
                log pid (RetryingIn (backoff (env attempt))) None None]))) =
     (lg' @ [log pid LockFailed None (Some False),
             log pid (RetryingIn (backoff (env attempt))) None None]) @
       log pid AcquiringLock None None # rest"
    using retry_loop_first by blast
  then have "snd (snd (retry_loop f env itemId pid n maxRetries attempt store lg)) =
      lg' @ [log pid LockFailed None (Some False),
             log pid (RetryingIn (backoff (env attempt))) None None,
             log pid AcquiringLock None None] @ rest"
    using e by simp
  then show ?thesis using True e by auto
next
  case False
  then have eq: "attempt = maxRetries" using assms(1) by simp
  show ?thesis
    using assms(2) unfolding eq
    by (simp add: retry_loop.simps [of f env itemId pid n maxRetries maxRetries store lg])
  qed
qed

theorem release_failure_retried_witness:
  "retry_loop rev env_steal ''HASH-CHAIN-1'' ''A'' 1 2 1 (createInitialItem 900)
     [log ''A'' Started (Some 1) None] =
   retry_loop rev env_steal ''HASH-CHAIN-1'' ''A'' 1 2 2
     \<lparr>item_id = ''HASH-CHAIN-1'',
       currentHash = ''0000000000000000000000000000000000000000000000000000000000000000'',
       lastUpdated = 900, lockTime = Some 1061, lockedBy = Some ''B''\<rparr>
     [log ''A'' Started (Some 1) None, log ''A'' AcquiringLock None None,
      log ''A'' (LockRequestTook 5) None None, log ''A'' LockAcquired None (Some True),
      log ''A'' GeneratingHashes None None, log ''A'' (GeneratedHash 1 1 40000) None None,
      log ''A'' LockFailed None (Some False), log ''A'' (RetryingIn 42) None None]"
proof -
  have h1: "(1::int) \<le> 2" by simp
  have h2: "attempt_body rev (env_steal 1) ''HASH-CHAIN-1'' ''A'' 1 (createInitialItem 900)
     [log ''A'' Started (Some 1) None] =
   (Inl (LockError (FailedToUpdateItem ''HASH-CHAIN-1'' (LockedByUntil ''B'' 1061))
          (Some \<lparr>item_id = ''HASH-CHAIN-1'',
                 currentHash = ''0000000000000000000000000000000000000000000000000000000000000000'',
                 lastUpdated = 900, lockTime = Some 1061, lockedBy = Some ''B''\<rparr>)),
    \<lparr>item_id = ''HASH-CHAIN-1'',
      currentHash = ''0000000000000000000000000000000000000000000000000000000000000000'',
      lastUpdated = 900, lockTime = Some 1061, lockedBy = Some ''B''\<rparr>,
    [log ''A'' Started (Some 1) None, log ''A'' AcquiringLock None None,
     log ''A'' (LockRequestTook 5) None None, log ''A'' LockAcquired None (Some True),
     log ''A'' GeneratingHashes None None, log ''A'' (GeneratedHash 1 1 40000) None None])"
    by (simp add: run_defs env_steal_def generate_hashes.simps)
  show ?thesis
    using release_failure_retried [where env = env_steal and attempt = 1 and maxRetries = 2,
        OF h1 h2]
    by (simp add: env_steal_def)
qed

end
